theory Spec2Isabelle
  imports Complex_Main
begin

section \<open>The playback scheduler of MorseConverter.tsx\<close>

text \<open>
  \<^verbatim>\<open>playMorseCode\<close> (lines 88-127) walks \<^verbatim>\<open>outputText\<close> character by character and
  programs the gain of an oscillator: \<^verbatim>\<open>gainNode.gain.setValueAtTime(0.5, time)\<close> switches
  the tone on, \<^verbatim>\<open>gainNode.gain.setValueAtTime(0, time)\<close> switches it off. A Tone Event
  is the pair of the timestamp and of whether the programmed gain is audible.

  Times are JavaScript doubles in the source. The model computes with exact reals, so
  it describes the timeline up to the rounding of double addition.
\<close>

type_synonym tone_event = "real \<times> bool"

record sched =
  time :: real
  calls :: "tone_event list"

definition setValueAtTime :: "real \<Rightarrow> real \<Rightarrow> sched \<Rightarrow> sched" where
  "setValueAtTime v t s = s\<lparr>calls := calls s @ [(t, 0 < v)]\<rparr>"

text \<open>
  The callback of \<^verbatim>\<open>forEach\<close>, lines 104-118, branch by branch.
  \<^verbatim>\<open>outputText.split('')\<close> hands it the code units of the text one by one, and all it
  asks of one is whether it is \<open>.\<close>, \<open>-\<close> or the space; any other unit takes the
  branch that does nothing, as any other \<open>char\<close> does here.
\<close>

definition forEach_body :: "real \<Rightarrow> char \<Rightarrow> sched \<Rightarrow> sched" where
  "forEach_body unit ch s =
     (if ch = CHR ''.'' then
        (let s1 = setValueAtTime (1 / 2) (time s) s;
             s2 = s1\<lparr>time := time s1 + unit\<rparr>;
             s3 = setValueAtTime 0 (time s2) s2
         in s3\<lparr>time := time s3 + unit\<rparr>)
      else if ch = CHR ''-'' then
        (let s1 = setValueAtTime (1 / 2) (time s) s;
             s2 = s1\<lparr>time := time s1 + unit * 3\<rparr>;
             s3 = setValueAtTime 0 (time s2) s2
         in s3\<lparr>time := time s3 + unit\<rparr>)
      else if ch = CHR '' '' then s\<lparr>time := time s + unit * 3\<rparr>
      else s)"

primrec forEach :: "real \<Rightarrow> string \<Rightarrow> sched \<Rightarrow> sched" where
  "forEach unit [] s = s"
| "forEach unit (ch # rest) s = forEach unit rest (forEach_body unit ch s)"

text \<open>
  The loop started with the cursor at \<open>t0\<close> and no event yet: line 101 sets
  \<^verbatim>\<open>time = audioContext.currentTime\<close>, so \<open>t0\<close> is the reading of the context clock.
\<close>

definition schedule :: "real \<Rightarrow> real \<Rightarrow> string \<Rightarrow> sched" where
  "schedule unit t0 morse = forEach unit morse \<lparr>time = t0, calls = []\<rparr>"

text \<open>
  Line 90 creates the audio context the function schedules on. The clock of a context
  that has not yet processed a block of audio reads 0, and the function reads it
  (lines 98, 99, 101 and 126) in the synchronous task that created the context.
\<close>

record AudioContext =
  currentTime :: real

definition new_AudioContext :: AudioContext where
  "new_AudioContext = \<lparr>currentTime = 0\<rparr>"

text \<open>
  What lines 91-127 hand to the audio context, given the reading \<open>now\<close> of its clock:
  the gain set to 0 at that time (line 99), the Tone Events of the loop with
  \<^verbatim>\<open>unit = 0.1\<close>, the time given to \<^verbatim>\<open>oscillator.stop\<close> (line 121) and the delay of
  the timer that ends the playback (line 126).
\<close>

record playback =
  initial_gain :: tone_event
  tone_events :: "tone_event list"
  stop_time :: real
  timeout_ms :: real

definition playMorseCode_at :: "real \<Rightarrow> string \<Rightarrow> playback" where
  "playMorseCode_at now outputText =
     (let unit = 1 / 10;
          s = schedule unit now outputText
      in \<lparr>initial_gain = (now, False),
          tone_events = calls s,
          stop_time = time s,
          timeout_ms = (time s - now) * 1000\<rparr>)"

text \<open>One call of \<^verbatim>\<open>playMorseCode\<close>, lines 88-127: the context is created, then used.\<close>

definition playMorseCode :: "string \<Rightarrow> playback" where
  "playMorseCode outputText =
     (let audioContext = new_AudioContext
      in playMorseCode_at (currentTime audioContext) outputText)"

text \<open>
  The total playback duration of a timeline, as section 4.2 of the specification
  defines it: the final emitted timestamp. A timeline without events lasts 0.
\<close>

definition total_duration :: "tone_event list \<Rightarrow> real" where
  "total_duration evs = (if evs = [] then 0 else fst (last evs))"

text \<open>The silences of a timeline: from each tone-off to the tone-on that follows it.\<close>

fun silences :: "tone_event list \<Rightarrow> real list" where
  "silences ((t, False) # (t', True) # evs) = (t' - t) # silences ((t', True) # evs)"
| "silences (e # evs) = silences evs"
| "silences [] = []"

text \<open>Events alternate, the first of them being \<open>b\<close>.\<close>

fun alternating :: "bool \<Rightarrow> bool list \<Rightarrow> bool" where
  "alternating b [] = True"
| "alternating b (x # xs) = (x = b \<and> alternating (\<not> b) xs)"

definition is_symbol :: "char \<Rightarrow> bool" where
  "is_symbol ch = (ch = CHR ''.'' \<or> ch = CHR ''-'')"

definition tone_length :: "real \<Rightarrow> char \<Rightarrow> real" where
  "tone_length unit ch = (if ch = CHR ''.'' then unit else unit * 3)"

definition is_played :: "char \<Rightarrow> bool" where
  "is_played ch = (ch = CHR ''.'' \<or> ch = CHR ''-'' \<or> ch = CHR '' '')"


text \<open>Loop invariants: timestamps never run ahead of the cursor; tones are closed.\<close>

definition timeline_ok :: "sched \<Rightarrow> bool" where
  "timeline_ok s = (sorted (map fst (calls s)) \<and> (\<forall>e \<in> set (calls s). fst e \<le> time s))"

definition toggles_ok :: "sched \<Rightarrow> bool" where
  "toggles_ok s = (alternating True (map snd (calls s)) \<and> even (length (calls s)))"

section \<open>The caller of the codec in MorseConverter.tsx\<close>

text \<open>
  The effect of lines 16-29 runs whenever the input or the mode changes. It calls
  \<^verbatim>\<open>textToMorse\<close> or \<^verbatim>\<open>morseToText\<close> of \<^verbatim>\<open>../utils/morseUtils\<close> inside
  \<^verbatim>\<open>try\<close>: a result becomes the output text, an exception becomes the toast
  \<^verbatim>\<open>'Invalid input for conversion'\<close> and leaves the output as it was. The two
  functions are parameters here; a call that throws is the value \<open>Inl\<close>.
\<close>

datatype mode = EncodeMode | DecodeMode

record ui =
  inputText :: string
  outputText :: string
  morseMode :: mode
  toasts :: "string list"

definition useEffect ::
    "(string \<Rightarrow> 'e + string) \<Rightarrow> (string \<Rightarrow> 'e + string) \<Rightarrow> ui \<Rightarrow> ui" where
  "useEffect textToMorse morseToText st =
     (if morseMode st = EncodeMode then
        (case textToMorse (inputText st) of
           Inr morse \<Rightarrow> st\<lparr>outputText := morse\<rparr>
         | Inl error \<Rightarrow> st\<lparr>toasts := toasts st @ [''Invalid input for conversion'']\<rparr>)
      else
        (case morseToText (inputText st) of
           Inr text \<Rightarrow> st\<lparr>outputText := text\<rparr>
         | Inl error \<Rightarrow> st\<lparr>toasts := toasts st @ [''Invalid input for conversion'']\<rparr>))"

section \<open>The codec\<close>

text \<open>
  Modelled from the spec: the module \<^verbatim>\<open>utils/morseUtils\<close> with \<^verbatim>\<open>textToMorse\<close>,
  \<^verbatim>\<open>morseToText\<close> and the Alphabet Table is not among the sources. Everything in this
  section follows sections 3, 4.1, 6 and 7 of the specification.
\<close>

text \<open>Modelled from the spec: a Symbol is a dot or a dash, a Code a sequence of them.\<close>

datatype symbol = Dot | Dash

type_synonym code = "symbol list"

text \<open>
  Modelled from the spec: the Alphabet Table, a fixed association of characters in
  their normal case with Codes. Its entries are not given by the specification beyond
  "letters, digits, a small punctuation set", so the operations take the table as an
  argument.
\<close>

type_synonym alphabet = "(char \<times> code) list"

text \<open>Modelled from the spec: the two non-fatal failure signals of section 7.\<close>

datatype codec_error = UnsupportedCharacter char | UnknownCode string

text \<open>Modelled from the spec: a Code is rendered with \<open>.\<close> and \<open>-\<close>.\<close>

fun symbol_char :: "symbol \<Rightarrow> char" where
  "symbol_char Dot = CHR ''.''"
| "symbol_char Dash = CHR ''-''"

definition render :: "code \<Rightarrow> string" where
  "render k = map symbol_char k"

text \<open>
  Modelled from the spec: reading a token back as a Code. A Code is non-empty, and a
  token with any other character is no Code.
\<close>

fun parse_symbols :: "string \<Rightarrow> code option" where
  "parse_symbols [] = Some []"
| "parse_symbols (c # cs) =
     (if c = CHR ''.'' then map_option ((#) Dot) (parse_symbols cs)
      else if c = CHR ''-'' then map_option ((#) Dash) (parse_symbols cs)
      else None)"

definition parse_code :: "string \<Rightarrow> code option" where
  "parse_code tok = (if tok = [] then None else parse_symbols tok)"

text \<open>
  Modelled from the spec: the case policy of the table. Characters are looked up
  case-insensitively; the normal form chosen here is the upper case of the letters a-z,
  as in the example \<open>"SOS"\<close>.
\<close>

definition to_upper :: "char \<Rightarrow> char" where
  "to_upper c =
     (case map_of (zip ''abcdefghijklmnopqrstuvwxyz'' ''ABCDEFGHIJKLMNOPQRSTUVWXYZ'') c of
        None \<Rightarrow> c
      | Some C \<Rightarrow> C)"

definition normalize_text :: "string \<Rightarrow> string" where
  "normalize_text text = map to_upper text"

text \<open>
  Modelled from the spec: the whitespace characters that separate the words of a text
  (space, tab, line feed, carriage return).
\<close>

definition is_whitespace :: "char \<Rightarrow> bool" where
  "is_whitespace c = (c = CHR '' '' \<or> c = CHR 0x09 \<or> c = CHR 0x0A \<or> c = CHR 0x0D)"

text \<open>
  Modelled from the spec: the lookup of one character. A character outside the table
  is the signal \<open>UnsupportedCharacter\<close>.
\<close>

definition encode_char :: "alphabet \<Rightarrow> char \<Rightarrow> codec_error + string" where
  "encode_char tbl c =
     (case map_of tbl (to_upper c) of
        None \<Rightarrow> Inl (UnsupportedCharacter c)
      | Some k \<Rightarrow> Inr (render k))"

text \<open>
  Modelled from the spec: the reverse lookup of one token. A token that is no Code of
  the table is the signal \<open>UnknownCode\<close> carrying the token.
\<close>

definition lookup_code :: "alphabet \<Rightarrow> code \<Rightarrow> char option" where
  "lookup_code tbl k = map_of (map (\<lambda>(c, k'). (k', c)) tbl) k"

definition decode_token :: "alphabet \<Rightarrow> string \<Rightarrow> codec_error + char" where
  "decode_token tbl tok =
     (case parse_code tok of
        None \<Rightarrow> Inl (UnknownCode tok)
      | Some k \<Rightarrow> (case lookup_code tbl k of
                     None \<Rightarrow> Inl (UnknownCode tok)
                   | Some c \<Rightarrow> Inr c))"

text \<open>
  Modelled from the spec: the tolerant policy. The failure signals are dropped and the
  results of the other items are kept, in order.
\<close>

fun rights :: "('e + 'a) list \<Rightarrow> 'a list" where
  "rights [] = []"
| "rights (Inl e # rs) = rights rs"
| "rights (Inr a # rs) = a # rights rs"

text \<open>
  Modelled from the spec: the wire form. The character gap is one space, the word gap
  three consecutive spaces; \<open>join\<close> puts a separator between the items of a list,
  \<open>split_on\<close> cuts at every character that satisfies \<open>p\<close>, and \<open>split_words\<close> cuts
  at every word gap, reading from the left.
\<close>

definition char_gap :: string where
  "char_gap = '' ''"

definition word_gap :: string where
  "word_gap = ''   ''"

fun join :: "'a list \<Rightarrow> 'a list list \<Rightarrow> 'a list" where
  "join sep [] = []"
| "join sep [w] = w"
| "join sep (w # v # ws) = w @ sep @ join sep (v # ws)"

fun push :: "'a \<Rightarrow> 'a list list \<Rightarrow> 'a list list" where
  "push c [] = [[c]]"
| "push c (w # ws) = (c # w) # ws"

fun split_on :: "('a \<Rightarrow> bool) \<Rightarrow> 'a list \<Rightarrow> 'a list list" where
  "split_on p [] = [[]]"
| "split_on p (c # cs) = (if p c then [] # split_on p cs else push c (split_on p cs))"

fun split_words :: "string \<Rightarrow> string list" where
  "split_words [] = [[]]"
| "split_words (c # cs) =
     (if take 3 (c # cs) = word_gap then [] # split_words (drop 2 cs)
      else push c (split_words cs))"

text \<open>
  Modelled from the spec: \<open>encode\<close>, the absent \<^verbatim>\<open>textToMorse\<close>. The text is cut into
  words at whitespace; in each word every character is looked up and the unsupported
  ones are dropped; words with nothing left (also the empty words between consecutive
  whitespace) are dropped; the Codes of a word are joined by the character gap and the
  words by the word gap.
\<close>

definition encode_word :: "alphabet \<Rightarrow> string \<Rightarrow> string list" where
  "encode_word tbl w = rights (map (encode_char tbl) w)"

definition encode :: "alphabet \<Rightarrow> string \<Rightarrow> string" where
  "encode tbl text =
     join word_gap (map (join char_gap)
       (filter (\<lambda>ks. ks \<noteq> []) (map (encode_word tbl) (split_on is_whitespace text))))"

text \<open>
  Modelled from the spec: \<open>decode\<close>, the absent \<^verbatim>\<open>morseToText\<close>. The input is cut
  at the word gaps, each word at the character gaps, each token is looked up in reverse
  and the unknown ones are skipped; the decoded words are joined by one space.
\<close>

definition decode_tokens :: "alphabet \<Rightarrow> string list \<Rightarrow> string" where
  "decode_tokens tbl ts = rights (map (decode_token tbl) ts)"

definition decode_word :: "alphabet \<Rightarrow> string \<Rightarrow> string" where
  "decode_word tbl w = decode_tokens tbl (split_on (\<lambda>c. c = CHR '' '') w)"

definition decode :: "alphabet \<Rightarrow> string \<Rightarrow> string" where
  "decode tbl morse = join '' '' (map (decode_word tbl) (split_words morse))"

text \<open>
  Modelled from the spec: the invariant of the Alphabet Table. No two entries share a
  Code, and every Code is non-empty.
\<close>

definition valid_alphabet :: "alphabet \<Rightarrow> bool" where
  "valid_alphabet tbl = (distinct (map snd tbl) \<and> (\<forall>e \<in> set tbl. snd e \<noteq> []))"

text \<open>
  Modelled from the spec: a table to run the codec on, the letters and digits with
  their International Morse Codes. The punctuation set of the specification is not
  listed there and is left out.
\<close>

definition code_of_string :: "string \<Rightarrow> code" where
  "code_of_string s = map (\<lambda>c. if c = CHR ''.'' then Dot else Dash) s"

definition morse_table :: alphabet where
  "morse_table = map (\<lambda>(c, s). (c, code_of_string s))
     [(CHR ''A'', ''.-''), (CHR ''B'', ''-...''), (CHR ''C'', ''-.-.''), (CHR ''D'', ''-..''),
      (CHR ''E'', ''.''), (CHR ''F'', ''..-.''), (CHR ''G'', ''--.''), (CHR ''H'', ''....''),
      (CHR ''I'', ''..''), (CHR ''J'', ''.---''), (CHR ''K'', ''-.-''), (CHR ''L'', ''.-..''),
      (CHR ''M'', ''--''), (CHR ''N'', ''-.''), (CHR ''O'', ''---''), (CHR ''P'', ''.--.''),
      (CHR ''Q'', ''--.-''), (CHR ''R'', ''.-.''), (CHR ''S'', ''...''), (CHR ''T'', ''-''),
      (CHR ''U'', ''..-''), (CHR ''V'', ''...-''), (CHR ''W'', ''.--''), (CHR ''X'', ''-..-''),
      (CHR ''Y'', ''-.--''), (CHR ''Z'', ''--..''),
      (CHR ''0'', ''-----''), (CHR ''1'', ''.----''), (CHR ''2'', ''..---''),
      (CHR ''3'', ''...--''), (CHR ''4'', ''....-''), (CHR ''5'', ''.....''),
      (CHR ''6'', ''-....''), (CHR ''7'', ''--...''), (CHR ''8'', ''---..''),
      (CHR ''9'', ''----.'')]"

text \<open>
  Modelled from the spec: the characters a text may be made of. A supported character
  has an entry in the table and is no whitespace; an unsupported one has no entry and
  is no whitespace.
\<close>

definition supported :: "alphabet \<Rightarrow> char \<Rightarrow> bool" where
  "supported tbl c = (map_of tbl (to_upper c) \<noteq> None \<and> \<not> is_whitespace c)"

definition unsupported :: "alphabet \<Rightarrow> char \<Rightarrow> bool" where
  "unsupported tbl c = (map_of tbl (to_upper c) = None \<and> \<not> is_whitespace c)"

text \<open>
  Token lists in wire form: every word has a token, and every token is non-empty and
  free of spaces. The other definitions describe the strings that arise from them.
\<close>

definition canonical :: "string list list \<Rightarrow> bool" where
  "canonical tss =
     (\<forall>ts \<in> set tss. ts \<noteq> [] \<and> (\<forall>t \<in> set ts. t \<noteq> [] \<and> CHR '' '' \<notin> set t))"

fun nodouble :: "string \<Rightarrow> bool" where
  "nodouble [] = True"
| "nodouble [a] = True"
| "nodouble (a # b # cs) = (\<not> (a = CHR '' '' \<and> b = CHR '' '') \<and> nodouble (b # cs))"

definition tight :: "string \<Rightarrow> bool" where
  "tight w = (w \<noteq> [] \<and> hd w \<noteq> CHR '' '' \<and> last w \<noteq> CHR '' '' \<and> nodouble w)"

definition token_of :: "alphabet \<Rightarrow> char \<Rightarrow> string" where
  "token_of tbl c = (case map_of tbl (to_upper c) of None \<Rightarrow> [] | Some k \<Rightarrow> render k)"

section \<open>Properties of the scheduler\<close>

lemma forEach_body_dot:
  "forEach_body u CHR ''.'' s =
     \<lparr>time = time s + u + u, calls = calls s @ [(time s, True), (time s + u, False)]\<rparr>"
  by (simp add: forEach_body_def setValueAtTime_def Let_def)

lemma forEach_body_dash:
  "forEach_body u CHR ''-'' s =
     \<lparr>time = time s + u * 3 + u, calls = calls s @ [(time s, True), (time s + u * 3, False)]\<rparr>"
  by (simp add: forEach_body_def setValueAtTime_def Let_def)

lemma forEach_body_space:
  "forEach_body u CHR '' '' s = \<lparr>time = time s + u * 3, calls = calls s\<rparr>"
  by (simp add: forEach_body_def)

lemma forEach_body_other:
  "\<not> is_played ch \<Longrightarrow> forEach_body u ch s = s"
  by (simp add: forEach_body_def is_played_def)

lemma forEach_body_symbol:
  "is_symbol ch \<Longrightarrow> forEach_body u ch s =
     \<lparr>time = time s + tone_length u ch + u,
      calls = calls s @ [(time s, True), (time s + tone_length u ch, False)]\<rparr>"
  by (auto simp: is_symbol_def tone_length_def forEach_body_dot forEach_body_dash)

lemma forEach_append:
  "forEach u (xs @ ys) s = forEach u ys (forEach u xs s)"
  by (induction xs arbitrary: s) simp_all

subsection \<open>The loop as a function of its starting cursor\<close>

lemma forEach_body_frame:
  "forEach_body u ch \<lparr>time = t, calls = evs\<rparr> =
     \<lparr>time = time (forEach_body u ch \<lparr>time = t, calls = []\<rparr>),
      calls = evs @ calls (forEach_body u ch \<lparr>time = t, calls = []\<rparr>)\<rparr>"
  by (simp add: forEach_body_def setValueAtTime_def Let_def)

lemma forEach_frame:
  "forEach u cs \<lparr>time = t, calls = evs\<rparr> =
     \<lparr>time = time (schedule u t cs), calls = evs @ calls (schedule u t cs)\<rparr>"
proof (induction cs arbitrary: t evs)
  case Nil
  show ?case by (simp add: schedule_def)
next
  case (Cons ch cs)
  obtain t' new where b: "forEach_body u ch \<lparr>time = t, calls = []\<rparr> = \<lparr>time = t', calls = new\<rparr>"
    by (cases "forEach_body u ch \<lparr>time = t, calls = []\<rparr>") simp
  have f: "forEach_body u ch \<lparr>time = t, calls = evs\<rparr> = \<lparr>time = t', calls = evs @ new\<rparr>"
    using forEach_body_frame [of u ch t evs] b by simp
  have "forEach u (ch # cs) \<lparr>time = t, calls = evs\<rparr> =
          \<lparr>time = time (schedule u t' cs), calls = (evs @ new) @ calls (schedule u t' cs)\<rparr>"
    using Cons.IH [of t' "evs @ new"] f by simp
  moreover have "schedule u t (ch # cs) =
          \<lparr>time = time (schedule u t' cs), calls = new @ calls (schedule u t' cs)\<rparr>"
    using Cons.IH [of t' new] b by (simp add: schedule_def)
  ultimately show ?case by simp
qed

lemma schedule_Nil: "schedule u t [] = \<lparr>time = t, calls = []\<rparr>"
  by (simp add: schedule_def)

lemma schedule_Cons:
  "schedule u t (ch # cs) =
     \<lparr>time = time (schedule u (time (forEach_body u ch \<lparr>time = t, calls = []\<rparr>)) cs),
      calls = calls (forEach_body u ch \<lparr>time = t, calls = []\<rparr>)
               @ calls (schedule u (time (forEach_body u ch \<lparr>time = t, calls = []\<rparr>)) cs)\<rparr>"
proof -
  have "schedule u t (ch # cs) = forEach u cs (forEach_body u ch \<lparr>time = t, calls = []\<rparr>)"
    by (simp add: schedule_def)
  also have "forEach_body u ch \<lparr>time = t, calls = []\<rparr> =
      \<lparr>time = time (forEach_body u ch \<lparr>time = t, calls = []\<rparr>),
       calls = calls (forEach_body u ch \<lparr>time = t, calls = []\<rparr>)\<rparr>"
    by simp
  finally show ?thesis using forEach_frame by metis
qed

lemma schedule_append:
  "schedule u t (xs @ ys) =
     \<lparr>time = time (schedule u (time (schedule u t xs)) ys),
      calls = calls (schedule u t xs) @ calls (schedule u (time (schedule u t xs)) ys)\<rparr>"
proof -
  have "schedule u t (xs @ ys) = forEach u ys (schedule u t xs)"
    by (simp add: schedule_def forEach_append)
  also have "schedule u t xs = \<lparr>time = time (schedule u t xs), calls = calls (schedule u t xs)\<rparr>"
    by simp
  finally show ?thesis using forEach_frame by metis
qed

lemma schedule_spaces:
  "schedule u t (replicate k CHR '' '') = \<lparr>time = t + real k * (u * 3), calls = []\<rparr>"
proof (induction k arbitrary: t)
  case 0
  show ?case by (simp add: schedule_Nil)
next
  case (Suc k)
  show ?case
    by (simp add: schedule_Cons [of u t] forEach_body_space Suc.IH algebra_simps)
qed

lemma schedule_symbol_Cons:
  assumes "is_symbol a"
  shows "schedule u t (a # cs) =
     \<lparr>time = time (schedule u (t + tone_length u a + u) cs),
      calls = [(t, True), (t + tone_length u a, False)]
                @ calls (schedule u (t + tone_length u a + u) cs)\<rparr>"
  by (simp add: schedule_Cons [of u t] forEach_body_symbol [OF assms])




subsection \<open>Invariants of the loop\<close>

lemma forEach_body_timeline:
  assumes "0 \<le> u" and "timeline_ok s"
  shows "timeline_ok (forEach_body u ch s)"
proof -
  have le: "\<And>e. e \<in> set (calls s) \<Longrightarrow> fst e \<le> time s"
    using assms(2) by (simp add: timeline_ok_def)
  have so: "sorted (map fst (calls s))"
    using assms(2) by (simp add: timeline_ok_def)
  show ?thesis
    unfolding forEach_body_def setValueAtTime_def Let_def timeline_ok_def
    using assms(1) so le by (fastforce simp: sorted_append)
qed

lemma forEach_timeline:
  "0 \<le> u \<Longrightarrow> timeline_ok s \<Longrightarrow> timeline_ok (forEach u cs s)"
  by (induction cs arbitrary: s) (simp_all add: forEach_body_timeline)

lemma alternating_append:
  "alternating b (xs @ ys) =
     (alternating b xs \<and> alternating (if even (length xs) then b else \<not> b) ys)"
  by (induction xs arbitrary: b) auto

lemma alternating_last:
  "alternating b xs \<Longrightarrow> xs \<noteq> [] \<Longrightarrow> last xs = (if even (length xs) then \<not> b else b)"
  by (induction xs arbitrary: b) (auto split: if_splits)

lemma alternating_nth:
  "alternating b xs \<Longrightarrow> Suc i < length xs \<Longrightarrow> xs ! Suc i = (\<not> xs ! i)"
proof (induction xs arbitrary: b i)
  case Nil
  then show ?case by simp
next
  case (Cons x xs)
  show ?case
  proof (cases i)
    case 0
    with Cons.prems show ?thesis by (cases xs) auto
  next
    case (Suc j)
    with Cons.prems Cons.IH [of "\<not> b" j] show ?thesis by simp
  qed
qed

lemma forEach_body_toggles:
  "toggles_ok s \<Longrightarrow> toggles_ok (forEach_body u ch s)"
  by (simp add: forEach_body_def setValueAtTime_def Let_def toggles_ok_def alternating_append)

lemma forEach_toggles:
  "toggles_ok s \<Longrightarrow> toggles_ok (forEach u cs s)"
  by (induction cs arbitrary: s) (simp_all add: forEach_body_toggles)

lemma schedule_toggles: "toggles_ok (schedule u t0 morse)"
  unfolding schedule_def by (rule forEach_toggles) (simp add: toggles_ok_def)

lemma forEach_filter:
  "forEach u (filter is_played cs) s = forEach u cs s"
  by (induction cs arbitrary: s) (simp_all add: forEach_body_other)

section \<open>Claims about the scheduler\<close>

text \<open>
  C1 (as amended). The scheduler has no notion of a pending gap and takes no maximum:
  every symbol is followed by one unit of silence and every space character adds three
  more. Between two symbols separated by \<open>k\<close> spaces the silence is therefore the sum
  \<open>u + k * 3u\<close>, wherever the pair stands in the morse string: \<open>4u\<close> across a
  single space, \<open>10u\<close> across three spaces.
\<close>

theorem gap_is_sum:
  assumes "is_symbol a" and "is_symbol b"
  shows "calls (schedule u t0 (pre @ a # replicate k CHR '' '' @ b # post)) =
     (let t1 = time (schedule u t0 pre);
          off = t1 + tone_length u a;
          on = off + (u + real k * (u * 3));
          off' = on + tone_length u b
      in calls (schedule u t0 pre)
           @ [(t1, True), (off, False), (on, True), (off', False)]
           @ calls (schedule u (off' + u) post))"
proof -
  let ?t1 = "time (schedule u t0 pre)"
  let ?g = "?t1 + tone_length u a + u"
  have sp: "schedule u ?g (replicate k CHR '' '' @ b # post) =
      \<lparr>time = time (schedule u (?g + real k * (u * 3)) (b # post)),
       calls = calls (schedule u (?g + real k * (u * 3)) (b # post))\<rparr>"
    by (simp add: schedule_append [of u ?g] schedule_spaces)
  have "calls (schedule u t0 (pre @ a # replicate k CHR '' '' @ b # post)) =
      calls (schedule u t0 pre) @ calls (schedule u ?t1 (a # replicate k CHR '' '' @ b # post))"
    by (simp add: schedule_append [of u t0 pre])
  also have "calls (schedule u ?t1 (a # replicate k CHR '' '' @ b # post)) =
      [(?t1, True), (?t1 + tone_length u a, False)]
        @ calls (schedule u (?g + real k * (u * 3)) (b # post))"
    using sp by (simp add: schedule_symbol_Cons [OF assms(1)])
  also have "calls (schedule u (?g + real k * (u * 3)) (b # post)) =
      [(?g + real k * (u * 3), True), (?g + real k * (u * 3) + tone_length u b, False)]
        @ calls (schedule u (?g + real k * (u * 3) + tone_length u b + u) post)"
    by (simp add: schedule_symbol_Cons [OF assms(2)])
  finally show ?thesis by (simp add: Let_def add.assoc)
qed

theorem gap_is_sum_witness:
  "is_symbol CHR ''.'' \<and> is_symbol CHR ''-''
   \<and> calls (schedule 1 0 (''-'' @ CHR ''.'' # replicate 3 CHR '' '' @ CHR ''-'' # ''.'')) =
       [(0, True), (3, False), (4, True), (5, False), (15, True), (18, False),
        (19, True), (20, False)]
   \<and> silences (calls (schedule 1 0 (''-'' @ CHR ''.'' # replicate 3 CHR '' '' @ CHR ''-'' # ''.'')))
       = [1, 10, 1]"
proof -
  have a: "is_symbol CHR ''.''" and b: "is_symbol CHR ''-''"
    by (simp_all add: is_symbol_def)
  have c: "calls (schedule 1 0 ''-'') = [(0, True), (3, False)]"
          "time (schedule 1 0 ''-'') = 4"
          "calls (schedule 1 19 ''.'') = [(19, True), (20, False)]"
    by (simp_all add: schedule_def forEach_body_def setValueAtTime_def Let_def)
  show ?thesis
    using gap_is_sum [OF a b, of 1 0 "''-''" 3 "''.''"] a b c
    by (simp add: Let_def tone_length_def)
qed

text \<open>
  C1 (as stated) fails: in \<open>". ."\<close> the two dots are adjacent characters of a word,
  and the silence between them is 4 units, not the larger of 1 and 3 units.
\<close>

theorem gap_not_max_counterexample:
  "silences (calls (schedule (1 / 10) 0 ''. .'')) = [4 * (1 / 10)]
   \<and> 4 * (1 / 10) \<noteq> max (1 / 10) (3 * (1 / 10 :: real))"
  by (simp add: schedule_def forEach_body_def setValueAtTime_def Let_def)

text \<open>
  C3. For every unit \<open>u\<close>, the schedule of \<open>"."\<close> is exactly the two events
  \<open>(0, on)\<close>, \<open>(u, off)\<close> and its total duration is \<open>u\<close>; the schedule of
  \<open>"-"\<close> is exactly \<open>(0, on)\<close>, \<open>(3u, off)\<close> and its total duration is \<open>3u\<close>.
  The total duration is the final emitted timestamp. With the unit 0.1 of the source,
  \<^verbatim>\<open>playMorseCode\<close> emits these events for a dot and for a dash.
\<close>

theorem single_symbol_schedule:
  "calls (schedule u 0 ''.'') = [(0, True), (u, False)]
   \<and> total_duration (calls (schedule u 0 ''.'')) = u
   \<and> calls (schedule u 0 ''-'') = [(0, True), (3 * u, False)]
   \<and> total_duration (calls (schedule u 0 ''-'')) = 3 * u
   \<and> tone_events (playMorseCode ''.'') = [(0, True), (1 / 10, False)]
   \<and> total_duration (tone_events (playMorseCode ''.'')) = 1 / 10
   \<and> tone_events (playMorseCode ''-'') = [(0, True), (3 * (1 / 10), False)]
   \<and> total_duration (tone_events (playMorseCode ''-'')) = 3 * (1 / 10)"
  by (simp add: playMorseCode_def playMorseCode_at_def new_AudioContext_def total_duration_def
        schedule_def forEach_body_def setValueAtTime_def Let_def)

text \<open>
  C4. For every morse string, every positive unit and every starting cursor, the
  timestamps of the Tone Events are non-decreasing from the first event to the last.
\<close>

theorem timestamps_nondecreasing:
  "0 < u \<Longrightarrow> sorted (map fst (calls (schedule u t0 morse)))"
proof -
  assume "0 < u"
  then have "0 \<le> u" by simp
  moreover have "timeline_ok \<lparr>time = t0, calls = []\<rparr>"
    by (simp add: timeline_ok_def)
  ultimately have "timeline_ok (schedule u t0 morse)"
    unfolding schedule_def by (rule forEach_timeline)
  then show ?thesis by (simp add: timeline_ok_def)
qed

theorem timestamps_nondecreasing_witness:
  "0 < (1 / 10 :: real)
   \<and> map fst (calls (schedule (1 / 10) 0 ''.- .'')) = [0, 1 / 10, 2 / 10, 5 / 10, 9 / 10, 1]
   \<and> sorted (map fst (calls (schedule (1 / 10) 0 ''.- .'')))"
  using timestamps_nondecreasing [of "1 / 10" 0 "''.- .''"]
  by (simp add: schedule_def forEach_body_def setValueAtTime_def Let_def)


text \<open>
  C6. For every unit and every starting cursor, the empty morse string gives no Tone
  Event and a playback of duration zero: the cursor has not moved, there is no final
  timestamp, and the timer of \<^verbatim>\<open>playMorseCode\<close> is set to 0 ms.
\<close>

theorem empty_schedule:
  "calls (schedule u t0 []) = []
   \<and> time (schedule u t0 []) - t0 = 0
   \<and> total_duration (calls (schedule u t0 [])) = 0
   \<and> tone_events (playMorseCode_at t0 []) = []
   \<and> stop_time (playMorseCode_at t0 []) - t0 = 0
   \<and> timeout_ms (playMorseCode_at t0 []) = 0
   \<and> tone_events (playMorseCode []) = []
   \<and> stop_time (playMorseCode []) = 0
   \<and> timeout_ms (playMorseCode []) = 0"
  by (simp add: playMorseCode_def playMorseCode_at_def new_AudioContext_def total_duration_def
        schedule_def Let_def)

text \<open>
  C9. A character other than \<open>.\<close>, \<open>-\<close> and the space leaves the state of the loop
  as it is: no Tone Event, no move of the cursor. The schedule of a string is the
  schedule of the string without such characters.
\<close>

theorem ignored_characters:
  "(\<not> is_played ch \<longrightarrow> forEach_body u ch s = s)
   \<and> schedule u t0 (filter is_played morse) = schedule u t0 morse"
  by (simp add: forEach_body_other schedule_def forEach_filter)

theorem ignored_characters_witness:
  "\<not> is_played CHR ''/''
   \<and> forEach_body (1 / 10) CHR ''/'' \<lparr>time = 2 / 10, calls = [(0, True), (1 / 10, False)]\<rparr>
       = \<lparr>time = 2 / 10, calls = [(0, True), (1 / 10, False)]\<rparr>
   \<and> filter is_played [CHR ''.'', CHR ''/'', CHR 0x0A, CHR ''e'', CHR '' '', CHR ''-''] = ''. -''
   \<and> schedule (1 / 10) 0 ''. -''
       = schedule (1 / 10) 0 [CHR ''.'', CHR ''/'', CHR 0x0A, CHR ''e'', CHR '' '', CHR ''-'']"
  using ignored_characters [of "CHR ''/''" "1 / 10"
      "\<lparr>time = 2 / 10, calls = [(0, True), (1 / 10, False)]\<rparr>" 0
      "[CHR ''.'', CHR ''/'', CHR 0x0A, CHR ''e'', CHR '' '', CHR ''-'']"]
  by (simp add: is_played_def)

text \<open>
  C10. In the Tone Events of any schedule each event is the opposite of the one before
  it; when there is an event at all, the first is tone-on and the last is tone-off, so
  the tone is not left on at the end.
\<close>

theorem events_alternate:
  "(\<forall>i. Suc i < length (calls (schedule u t0 morse)) \<longrightarrow>
        snd (calls (schedule u t0 morse) ! Suc i) = (\<not> snd (calls (schedule u t0 morse) ! i)))
   \<and> (calls (schedule u t0 morse) \<noteq> [] \<longrightarrow>
        snd (hd (calls (schedule u t0 morse))) \<and> \<not> snd (last (calls (schedule u t0 morse))))"
proof -
  let ?evs = "calls (schedule u t0 morse)"
  have alt: "alternating True (map snd ?evs)" and ev: "even (length ?evs)"
    using schedule_toggles [of u t0 morse] by (simp_all add: toggles_ok_def)
  have "snd (?evs ! Suc i) = (\<not> snd (?evs ! i))" if "Suc i < length ?evs" for i
    using alternating_nth [OF alt, of i] that by simp
  moreover have "snd (hd ?evs)" if "?evs \<noteq> []"
    using alt that by (cases ?evs) auto
  moreover have "\<not> snd (last ?evs)" if "?evs \<noteq> []"
    using alternating_last [OF alt] that ev by (simp add: last_map)
  ultimately show ?thesis by blast
qed

theorem events_alternate_witness:
  "calls (schedule (1 / 10) 0 ''.- .'') \<noteq> []
   \<and> Suc 2 < length (calls (schedule (1 / 10) 0 ''.- .''))
   \<and> snd (calls (schedule (1 / 10) 0 ''.- .'') ! Suc 2)
       = (\<not> snd (calls (schedule (1 / 10) 0 ''.- .'') ! 2))
   \<and> snd (hd (calls (schedule (1 / 10) 0 ''.- .'')))
   \<and> \<not> snd (last (calls (schedule (1 / 10) 0 ''.- .'')))"
proof -
  have c: "calls (schedule (1 / 10) 0 ''.- .'') =
      [(0, True), (1 / 10, False), (2 / 10, True), (5 / 10, False), (9 / 10, True), (1, False)]"
    by (simp add: schedule_def forEach_body_def setValueAtTime_def Let_def)
  have n: "calls (schedule (1 / 10) 0 ''.- .'') \<noteq> []" and l: "Suc 2 < length (calls (schedule (1 / 10) 0 ''.- .''))"
    by (simp_all add: c)
  show ?thesis
    using events_alternate [of "1 / 10" 0 "''.- .''"] n l by blast
qed

section \<open>Properties of the codec\<close>

subsection \<open>The caller\<close>

lemma useEffect_returns:
  "morseMode st = EncodeMode \<Longrightarrow> textToMorse (inputText st) = Inr morse \<Longrightarrow>
     useEffect textToMorse morseToText st = st\<lparr>outputText := morse\<rparr>"
  "morseMode st = DecodeMode \<Longrightarrow> morseToText (inputText st) = Inr text \<Longrightarrow>
     useEffect textToMorse morseToText st = st\<lparr>outputText := text\<rparr>"
  by (simp_all add: useEffect_def)

lemma useEffect_throws:
  "morseMode st = EncodeMode \<Longrightarrow> textToMorse (inputText st) = Inl e \<Longrightarrow>
     useEffect textToMorse morseToText st =
       st\<lparr>toasts := toasts st @ [''Invalid input for conversion'']\<rparr>"
  "morseMode st = DecodeMode \<Longrightarrow> morseToText (inputText st) = Inl e \<Longrightarrow>
     useEffect textToMorse morseToText st =
       st\<lparr>toasts := toasts st @ [''Invalid input for conversion'']\<rparr>"
  by (simp_all add: useEffect_def)

subsection \<open>The codec of the specification\<close>

lemma to_upper_space: "to_upper CHR '' '' = CHR '' ''"
  by (simp add: to_upper_def)

lemma normalize_append: "normalize_text (xs @ ys) = normalize_text xs @ normalize_text ys"
  by (simp add: normalize_text_def)

lemma normalize_join:
  "normalize_text (join '' '' ws) = join '' '' (map normalize_text ws)"
  by (induction "'' ''" ws rule: join.induct) (simp_all add: normalize_text_def to_upper_space)

lemma split_on_token:
  "\<forall>c \<in> set t. \<not> p c \<Longrightarrow> split_on p t = [t]"
  by (induction t) simp_all

lemma split_on_sep:
  "\<forall>c \<in> set t. \<not> p c \<Longrightarrow> p s \<Longrightarrow> split_on p (t @ s # rest) = t # split_on p rest"
  by (induction t) simp_all

lemma split_on_join:
  "ts \<noteq> [] \<Longrightarrow> \<forall>t \<in> set ts. \<forall>c \<in> set t. \<not> p c \<Longrightarrow> p s \<Longrightarrow>
     split_on p (join [s] ts) = ts"
proof (induction "[s]" ts rule: join.induct)
  case 1
  then show ?case by simp
next
  case (2 w)
  then show ?case by (simp add: split_on_token)
next
  case (3 w v ws)
  then show ?case by (simp add: split_on_sep)
qed

lemma split_words_nodouble:
  "nodouble w \<Longrightarrow> split_words w = [w]"
proof (induction w rule: nodouble.induct)
  case (3 a b cs)
  then show ?case by (auto simp: word_gap_def)
next
  case 1
  then show ?case by simp
next
  case (2 v)
  then show ?case by (simp add: word_gap_def)
qed

lemma split_words_gap:
  "nodouble w \<Longrightarrow> (w \<noteq> [] \<Longrightarrow> last w \<noteq> CHR '' '') \<Longrightarrow>
     split_words (w @ word_gap @ rest) = w # split_words rest"
proof (induction w rule: nodouble.induct)
  case (3 a b cs)
  then show ?case by (auto simp: word_gap_def)
next
  case 1
  then show ?case by (simp add: word_gap_def)
next
  case (2 v)
  then show ?case by (simp add: word_gap_def)
qed

lemma split_words_join:
  "ws \<noteq> [] \<Longrightarrow> \<forall>w \<in> set ws. tight w \<Longrightarrow> split_words (join word_gap ws) = ws"
proof (induction word_gap ws rule: join.induct)
  case 1
  then show ?case by simp
next
  case (2 w)
  then show ?case by (simp add: split_words_nodouble tight_def)
next
  case (3 w v ws)
  then show ?case by (simp add: split_words_gap tight_def)
qed

lemma nodouble_token:
  "CHR '' '' \<notin> set t \<Longrightarrow> nodouble t"
  by (induction t rule: nodouble.induct) auto

lemma nodouble_append:
  "CHR '' '' \<notin> set t \<Longrightarrow> t \<noteq> [] \<Longrightarrow> nodouble r \<Longrightarrow> r \<noteq> [] \<Longrightarrow> hd r \<noteq> CHR '' '' \<Longrightarrow>
     nodouble (t @ CHR '' '' # r)"
proof (induction t rule: nodouble.induct)
  case (3 a b cs)
  then show ?case by auto
next
  case 1
  then show ?case by simp
next
  case (2 v)
  then show ?case by (cases r) auto
qed

lemma token_ends:
  "t \<noteq> [] \<Longrightarrow> CHR '' '' \<notin> set t \<Longrightarrow> hd t \<noteq> CHR '' '' \<and> last t \<noteq> CHR '' ''"
  by (metis hd_in_set last_in_set)

lemma tight_join:
  "ts \<noteq> [] \<Longrightarrow> \<forall>t \<in> set ts. t \<noteq> [] \<and> CHR '' '' \<notin> set t \<Longrightarrow> tight (join char_gap ts)"
proof (induction char_gap ts rule: join.induct)
  case 1
  then show ?case by simp
next
  case (2 w)
  then show ?case
    using token_ends [of w] by (simp add: tight_def nodouble_token)
next
  case (3 w v ws)
  let ?r = "join char_gap (v # ws)"
  have t: "tight ?r" using 3 by simp
  have w: "w \<noteq> []" "CHR '' '' \<notin> set w" using 3 by simp_all
  have "nodouble (w @ CHR '' '' # ?r)"
    using t w by (simp add: nodouble_append tight_def)
  moreover have "hd (w @ CHR '' '' # ?r) \<noteq> CHR '' ''"
    using token_ends [OF w] w by simp
  moreover have "last (w @ CHR '' '' # ?r) \<noteq> CHR '' ''"
    using t by (simp add: tight_def)
  ultimately show ?case
    by (simp add: tight_def char_gap_def)
qed

lemma decode_word_join:
  "ts \<noteq> [] \<Longrightarrow> \<forall>t \<in> set ts. CHR '' '' \<notin> set t \<Longrightarrow>
     decode_word tbl (join char_gap ts) = decode_tokens tbl ts"
proof -
  assume "ts \<noteq> []" and "\<forall>t \<in> set ts. CHR '' '' \<notin> set t"
  then have "split_on (\<lambda>c. c = CHR '' '') (join [CHR '' ''] ts) = ts"
    by (intro split_on_join) auto
  then show ?thesis
    by (simp add: decode_word_def decode_tokens_def char_gap_def)
qed

lemma decode_empty: "decode tbl [] = []"
  by (simp add: decode_def decode_word_def decode_tokens_def decode_token_def parse_code_def)

lemma decode_canonical:
  assumes "canonical tss"
  shows "decode tbl (join word_gap (map (join char_gap) tss)) =
           join '' '' (map (decode_tokens tbl) tss)"
proof (cases "tss = []")
  case True
  then show ?thesis by (simp add: decode_empty)
next
  case False
  have "\<forall>w \<in> set (map (join char_gap) tss). tight w"
    using assms by (auto simp: canonical_def intro!: tight_join)
  then have "split_words (join word_gap (map (join char_gap) tss)) = map (join char_gap) tss"
    using False by (simp add: split_words_join)
  moreover have "map (decode_word tbl) (map (join char_gap) tss) = map (decode_tokens tbl) tss"
    using assms by (simp add: canonical_def decode_word_join)
  ultimately show ?thesis by (simp only: decode_def)
qed

lemma decode_tokens_append:
  "decode_tokens tbl (xs @ ys) = decode_tokens tbl xs @ decode_tokens tbl ys"
proof (induction xs)
  case Nil
  show ?case by (simp add: decode_tokens_def)
next
  case (Cons t xs)
  then show ?case
    by (cases "decode_token tbl t") (simp_all add: decode_tokens_def)
qed

lemma parse_render: "parse_symbols (render k) = Some k"
proof (induction k)
  case Nil
  show ?case by (simp add: render_def)
next
  case (Cons s k)
  then show ?case by (cases s) (simp_all add: render_def)
qed

lemma render_Nil: "(render k = []) = (k = [])"
  by (simp add: render_def)

lemma render_no_space: "CHR '' '' \<notin> set (render k)"
proof (induction k)
  case Nil
  show ?case by (simp add: render_def)
next
  case (Cons s k)
  then show ?case by (cases s) (simp_all add: render_def)
qed

lemma lookup_code_entry:
  assumes "distinct (map snd tbl)" and "(c, k) \<in> set tbl"
  shows "lookup_code tbl k = Some c"
proof -
  have eq: "map fst (map (\<lambda>(c, k'). (k', c)) tbl) = map snd tbl"
    by (induction tbl) auto
  have "distinct (map fst (map (\<lambda>(c, k'). (k', c)) tbl))"
    unfolding eq by (rule assms(1))
  moreover have "(k, c) \<in> set (map (\<lambda>(c, k'). (k', c)) tbl)"
    using assms(2) by force
  ultimately show ?thesis
    unfolding lookup_code_def by (rule map_of_is_SomeI)
qed

lemma decode_render:
  assumes "valid_alphabet tbl" and "map_of tbl c = Some k"
  shows "decode_token tbl (render k) = Inr c"
proof -
  have e: "(c, k) \<in> set tbl" using assms(2) by (rule map_of_SomeD)
  then have "k \<noteq> []" using assms(1) by (auto simp: valid_alphabet_def)
  then have "parse_code (render k) = Some k"
    by (simp add: parse_code_def parse_render render_Nil)
  moreover have "lookup_code tbl k = Some c"
    using assms(1) e by (simp add: valid_alphabet_def lookup_code_entry)
  ultimately show ?thesis by (simp add: decode_token_def)
qed

lemma encode_word_supported:
  "\<forall>c \<in> set w. supported tbl c \<Longrightarrow> encode_word tbl w = map (token_of tbl) w"
  by (induction w) (auto simp: encode_word_def encode_char_def supported_def token_of_def)

lemma decode_tokens_supported:
  assumes "valid_alphabet tbl"
  shows "\<forall>c \<in> set w. supported tbl c \<Longrightarrow> decode_tokens tbl (map (token_of tbl) w) = normalize_text w"
proof (induction w)
  case Nil
  show ?case by (simp add: decode_tokens_def normalize_text_def)
next
  case (Cons c w)
  then obtain k where k: "map_of tbl (to_upper c) = Some k"
    by (auto simp: supported_def)
  have "decode_token tbl (token_of tbl c) = Inr (to_upper c)"
    using decode_render [OF assms k] k by (simp add: token_of_def)
  then show ?case
    using Cons by (simp add: decode_tokens_def normalize_text_def)
qed

lemma token_of_canonical:
  assumes "valid_alphabet tbl" and "supported tbl c"
  shows "token_of tbl c \<noteq> [] \<and> CHR '' '' \<notin> set (token_of tbl c)"
proof -
  obtain k where k: "map_of tbl (to_upper c) = Some k"
    using assms(2) by (auto simp: supported_def)
  then have "(to_upper c, k) \<in> set tbl" by (rule map_of_SomeD)
  then have "k \<noteq> []" using assms(1) by (auto simp: valid_alphabet_def)
  then show ?thesis using k by (simp add: token_of_def render_no_space render_Nil)
qed

lemma encode_empty: "encode tbl [] = []"
  by (simp add: encode_def encode_word_def)

lemma split_on_nonempty: "split_on p cs \<noteq> []"
  by (induction cs) (auto simp: neq_Nil_conv elim: push.elims)

lemma map_filter_push:
  "wss \<noteq> [] \<Longrightarrow> map (filter q) (push c wss) =
     (if q c then push c (map (filter q) wss) else map (filter q) wss)"
  by (cases wss) simp_all

lemma split_on_filter:
  "\<forall>c. p c \<longrightarrow> q c \<Longrightarrow> split_on p (filter q cs) = map (filter q) (split_on p cs)"
  by (induction cs) (auto simp: map_filter_push split_on_nonempty)

lemma encode_word_filter:
  "encode_word tbl (filter (\<lambda>c. \<not> unsupported tbl c) w) = encode_word tbl w"
  by (induction w) (auto simp: encode_word_def encode_char_def unsupported_def split: option.splits)

lemma encode_filter:
  "encode tbl (filter (\<lambda>c. \<not> unsupported tbl c) text) = encode tbl text"
proof -
  have "split_on is_whitespace (filter (\<lambda>c. \<not> unsupported tbl c) text) =
      map (filter (\<lambda>c. \<not> unsupported tbl c)) (split_on is_whitespace text)"
    by (rule split_on_filter) (simp add: unsupported_def)
  then have "map (encode_word tbl) (split_on is_whitespace (filter (\<lambda>c. \<not> unsupported tbl c) text)) =
      map (encode_word tbl) (split_on is_whitespace text)"
    by (simp add: encode_word_filter comp_def)
  then show ?thesis by (simp only: encode_def)
qed

section \<open>Claims about the codec\<close>

text \<open>
  C2. For a valid Alphabet Table and a text made of non-empty words of supported
  characters with one space between the words, decoding the encoding of the text gives
  the text in normal case. For \<open>"SOS"\<close> this is \<open>"SOS"\<close>.
\<close>

theorem roundtrip:
  assumes "valid_alphabet tbl"
    and "\<forall>w \<in> set ws. w \<noteq> [] \<and> (\<forall>c \<in> set w. supported tbl c)"
  shows "decode tbl (encode tbl (join '' '' ws)) = normalize_text (join '' '' ws)"
proof (cases "ws = []")
  case True
  then show ?thesis by (simp add: encode_empty decode_empty normalize_text_def)
next
  case False
  let ?tss = "map (map (token_of tbl)) ws"
  have "\<forall>w \<in> set ws. \<forall>c \<in> set w. \<not> is_whitespace c"
    using assms(2) by (simp add: supported_def)
  then have "split_on is_whitespace (join '' '' ws) = ws"
    using False split_on_join [of ws is_whitespace "CHR '' ''"] by (simp add: is_whitespace_def)
  moreover have "map (encode_word tbl) ws = ?tss"
    using assms(2) by (simp add: encode_word_supported)
  moreover have "filter (\<lambda>ks. ks \<noteq> []) ?tss = ?tss"
    using assms(2) by (simp add: filter_id_conv)
  ultimately have enc: "encode tbl (join '' '' ws) = join word_gap (map (join char_gap) ?tss)"
    by (simp only: encode_def)
  have "canonical ?tss"
    using assms token_of_canonical [OF assms(1)] by (simp add: canonical_def)
  then have "decode tbl (join word_gap (map (join char_gap) ?tss)) =
      join '' '' (map (decode_tokens tbl) ?tss)"
    by (rule decode_canonical)
  then have "decode tbl (encode tbl (join '' '' ws)) = join '' '' (map (decode_tokens tbl) ?tss)"
    by (simp only: enc)
  also have "map (decode_tokens tbl) ?tss = map normalize_text ws"
    using assms(2) decode_tokens_supported [OF assms(1)] by simp
  finally show ?thesis by (simp add: normalize_join)
qed

theorem roundtrip_witness:
  "valid_alphabet morse_table
   \<and> supported morse_table CHR ''S'' \<and> supported morse_table CHR ''O''
   \<and> supported morse_table CHR ''e'' \<and> supported morse_table CHR ''4''
   \<and> encode morse_table ''SOS'' = ''... --- ...''
   \<and> decode morse_table (encode morse_table ''SOS'') = ''SOS''
   \<and> join '' '' [''See'', ''4'', ''SOS''] = ''See 4 SOS''
   \<and> decode morse_table (encode morse_table ''See 4 SOS'') = ''SEE 4 SOS''"
proof -
  have v: "valid_alphabet morse_table"
    by (simp add: valid_alphabet_def morse_table_def code_of_string_def)
  have s: "supported morse_table CHR ''S''" "supported morse_table CHR ''O''"
          "supported morse_table CHR ''e''" "supported morse_table CHR ''4''"
    by (simp_all add: supported_def morse_table_def to_upper_def is_whitespace_def)
  have e: "encode morse_table ''SOS'' = ''... --- ...''"
    by (simp add: encode_def morse_table_def encode_word_def encode_char_def to_upper_def render_def
          code_of_string_def is_whitespace_def word_gap_def char_gap_def)
  have 1: "decode morse_table (encode morse_table (join '' '' [''SOS''])) = normalize_text (join '' '' [''SOS''])"
    using s by (intro roundtrip [OF v]) simp
  have 2: "decode morse_table (encode morse_table (join '' '' [''See'', ''4'', ''SOS'']))
             = normalize_text (join '' '' [''See'', ''4'', ''SOS''])"
    using s by (intro roundtrip [OF v]) simp
  show ?thesis
    using v s e 1 2 by (simp add: normalize_text_def to_upper_def)
qed

text \<open>
  C8. A token with no match in the Alphabet Table is skipped and decoding goes on. In
  any list of tokens, the unknown token contributes nothing and the tokens before and
  after it are decoded as they are without it. For an input in wire form, the result
  is made of the decodings of all the other tokens, those before and after the unknown
  token in its word and those of the other words, in their order.
\<close>

theorem decode_skips_unknown:
  assumes "decode_token tbl bad = Inl (UnknownCode bad)"
  shows "decode_tokens tbl (xs @ bad # ys) = decode_tokens tbl xs @ decode_tokens tbl ys
    \<and> (canonical (before @ (xs @ bad # ys) # after) \<longrightarrow>
         decode tbl (join word_gap (map (join char_gap) (before @ (xs @ bad # ys) # after))) =
           join '' '' (map (decode_tokens tbl) before
                        @ (decode_tokens tbl xs @ decode_tokens tbl ys)
                        # map (decode_tokens tbl) after))"
proof -
  have skip: "decode_tokens tbl (xs @ bad # ys) = decode_tokens tbl xs @ decode_tokens tbl ys"
    using assms decode_tokens_append [of tbl xs "bad # ys"] by (simp add: decode_tokens_def)
  have "decode tbl (join word_gap (map (join char_gap) (before @ (xs @ bad # ys) # after))) =
           join '' '' (map (decode_tokens tbl) before
                        @ (decode_tokens tbl xs @ decode_tokens tbl ys)
                        # map (decode_tokens tbl) after)"
    if c: "canonical (before @ (xs @ bad # ys) # after)"
    using decode_canonical [OF c, of tbl] skip by simp
  with skip show ?thesis by blast
qed

theorem decode_skips_unknown_witness:
  "decode_token morse_table ''......'' = Inl (UnknownCode ''......'')
   \<and> canonical ([[''...'']] @ ([''...''] @ ''......'' # [''---'']) # [[''-'']])
   \<and> join word_gap (map (join char_gap) ([[''...'']] @ ([''...''] @ ''......'' # [''---'']) # [[''-'']]))
       = ''...   ... ...... ---   -''
   \<and> decode_tokens morse_table ([''...''] @ ''......'' # [''---'']) = ''SO''
   \<and> decode morse_table ''...   ... ...... ---   -'' = ''S SO T''"
proof -
  have c: "canonical ([[''...'']] @ ([''...''] @ ''......'' # [''---'']) # [[''-'']])"
    by (simp add: canonical_def)
  have u: "decode_token morse_table ''......'' = Inl (UnknownCode ''......'')"
    by (simp add: decode_token_def parse_code_def lookup_code_def morse_table_def
          code_of_string_def)
  have d: "decode_tokens morse_table [''...''] = ''S''"
          "decode_tokens morse_table [''---''] = ''O''"
          "decode_tokens morse_table [''-''] = ''T''"
    by (simp_all add: decode_tokens_def decode_token_def parse_code_def lookup_code_def
          morse_table_def code_of_string_def)
  show ?thesis
    using decode_skips_unknown [OF u, of "[''...'']" "[''---'']" "[[''...'']]" "[[''-'']]"] c u d
    by (simp add: word_gap_def char_gap_def)
qed

end
